theory Spec2Isabelle
  imports Complex_Main
begin

section \<open>Data model of the highlighted textbox\<close>

text \<open>
  The component \<open>HighlightedTextbox\<close> of \<open>gradio/components/highlighted_textbox.py\<close>
  turns a value into a list of (text, category) tuples, optionally merges adjacent
  tuples of one category, and offers a leave-one-out tokenizer.

  A Python \<open>str\<close> is a sequence of code points; it is modelled as a \<open>string\<close> whose
  elements stand for the code points, so that \<open>length\<close> is Python's \<open>len\<close>.
  A category is a \<open>str\<close>, a number or \<open>None\<close>. Numbers are modelled as rationals:
  Python's \<open>==\<close> on finite ints and floats is equality of their values, and a string
  never equals a number. (NaN, the one float that differs from itself, is outside
  the model.)
\<close>

datatype category = CStr string | CNum rat

type_synonym segment = "string \<times> category option"

text \<open>
  One entry of \<open>"highlights"\<close>. The docstring gives every entry the keys \<open>"start"\<close>
  and \<open>"end"\<close>, read with \<open>entity["start"]\<close> and \<open>entity["end"]\<close>; the label is
  read with \<open>entity.get("highlight_type")\<close>, so that a missing label is \<open>None\<close>.
\<close>

record highlight =
  highlight_type :: "category option"
  hl_start :: int
  hl_end :: int

text \<open>
  The dictionary form of the value: each of the keys \<open>"text"\<close> and \<open>"highlights"\<close>
  may be missing (\<open>None\<close> stands for an absent key).
\<close>

record structured =
  d_text :: "string option"
  d_highlights :: "highlight list option"

datatype py_value = Segments "segment list" | Dict structured

text \<open>Exceptions: the message, and for \<open>raise ... from ke\<close> the cause.\<close>

datatype error =
    KeyError string
  | IndexError string
  | ValueError string "error option"

text \<open>The attributes of \<open>self\<close> that the modelled methods read.\<close>

record config =
  combine_adjacent :: bool
  adjacent_separator :: string
  interpretation_separator :: string
  interpretation_replacement :: "string option"

section \<open>Python's sequence operations\<close>

text \<open>
  Slice indices: a negative index counts from the end, and every index is clamped
  into \<open>0 .. len\<close>. A slice whose stop is not after its start is empty.
\<close>

definition clamp_index :: "nat \<Rightarrow> int \<Rightarrow> nat" where
  "clamp_index n i =
     (if i < 0 then (if i + int n < 0 then 0 else nat (i + int n))
      else if int n \<le> i then n else nat i)"

definition slice :: "'a list \<Rightarrow> int \<Rightarrow> int \<Rightarrow> 'a list" where
  "slice s i j =
     (let a = clamp_index (length s) i; b = clamp_index (length s) j
      in take (b - a) (drop a s))"

definition slice_from :: "'a list \<Rightarrow> int \<Rightarrow> 'a list" where
  "slice_from s i = drop (clamp_index (length s) i) s"

text \<open>\<open>sep.join(xs)\<close>.\<close>

fun join :: "'a list \<Rightarrow> 'a list list \<Rightarrow> 'a list" where
  "join sep [] = []"
| "join sep [x] = x"
| "join sep (x # y # ys) = x @ sep @ join sep (y # ys)"

text \<open>\<open>xs.pop(index)\<close> and \<open>xs[index] = v\<close> for a non-negative index.\<close>

definition list_pop :: "'a list \<Rightarrow> nat \<Rightarrow> error + 'a list" where
  "list_pop xs index =
     (if index < length xs then Inr (take index xs @ drop (Suc index) xs)
      else Inl (IndexError ''pop index out of range''))"

definition list_set :: "'a list \<Rightarrow> nat \<Rightarrow> 'a \<Rightarrow> error + 'a list" where
  "list_set xs index v =
     (if index < length xs then Inr (xs[index := v])
      else Inl (IndexError ''list assignment index out of range''))"

text \<open>
  \<open>x.find(sep)\<close>: the least index at which \<open>sep\<close> occurs in \<open>x\<close>, if any.
\<close>

fun find_sub :: "'a list \<Rightarrow> 'a list \<Rightarrow> nat option" where
  "find_sub sep [] = (if sep = [] then Some 0 else None)"
| "find_sub sep (c # cs) =
     (if take (length sep) (c # cs) = sep then Some 0
      else map_option Suc (find_sub sep cs))"

text \<open>
  \<open>x.split(sep)\<close> raises \<open>ValueError\<close> on an empty separator. Otherwise it cuts
  \<open>x\<close> at the first occurrence of the separator and goes on behind it, so that
  occurrences are found from the left and do not overlap. The loop is only entered
  with a non-empty separator.
\<close>

function split_loop :: "'a list \<Rightarrow> 'a list \<Rightarrow> 'a list list" where
  "split_loop sep x =
     (if sep = [] then [x]
      else case find_sub sep x of
             None \<Rightarrow> [x]
           | Some j \<Rightarrow> take j x # split_loop sep (drop (j + length sep) x))"
  by pat_completeness auto
termination
proof (relation "measure (\<lambda>(sep, x). length x)")
  show "wf (measure (\<lambda>(sep, x). length x))" by simp
next
  fix sep x :: "'a list" and j
  assume sep: "sep \<noteq> []" and found: "find_sub sep x = Some j"
  have "find_sub sep x = Some j \<Longrightarrow> j + length sep \<le> length x" for j
  proof (induction x arbitrary: j)
    case Nil
    then show ?case by (simp split: if_splits)
  next
    case (Cons c cs)
    show ?case
    proof (cases "take (length sep) (c # cs) = sep")
      case True
      then have "length (take (length sep) (c # cs)) = length sep"
        by simp
      then have "length sep \<le> length (c # cs)"
        by (simp add: min_def split: if_splits)
      with True Cons.prems show ?thesis by simp
    next
      case False
      with Cons.prems obtain k where "find_sub sep cs = Some k" "j = Suc k"
        by auto
      with Cons.IH show ?thesis by simp
    qed
  qed
  from this [OF found] sep
  show "((sep, drop (j + length sep) x), (sep, x)) \<in> measure (\<lambda>(sep, x). length x)"
    by (cases sep) auto
qed

declare split_loop.simps [simp del]

definition str_split :: "string \<Rightarrow> string \<Rightarrow> error + string list" where
  "str_split x sep =
     (if sep = [] then Inl (ValueError ''empty separator'' None)
      else Inr (split_loop sep x))"

section \<open>postprocess\<close>

text \<open>
  The loop over the sorted entities, on the state \<open>(list_format, index)\<close>.
\<close>

fun expand_loop ::
  "string \<Rightarrow> highlight list \<Rightarrow> segment list \<times> int \<Rightarrow> segment list \<times> int" where
  "expand_loop text [] (list_format, index) = (list_format, index)"
| "expand_loop text (entity # entities) (list_format, index) =
     expand_loop text entities
       (list_format @
          [(slice text index (hl_start entity), None),
           (slice text (hl_start entity) (hl_end entity), highlight_type entity)],
        hl_end entity)"

text \<open>
  The branch \<open>isinstance(y, dict)\<close>. \<open>sorted(highlights, key=...)\<close> is stable, as
  \<open>sort_key\<close> is.
\<close>

definition missing_keys_message :: string where
  "missing_keys_message =
     ''Expected a dictionary with keys 'text' and 'highlights' '' @
     ''for the value of the HighlightedText component.''"

definition expand_dict :: "structured \<Rightarrow> error + segment list" where
  "expand_dict y =
     (case d_text y of
        None \<Rightarrow> Inl (ValueError missing_keys_message (Some (KeyError ''text'')))
      | Some text \<Rightarrow>
          (case d_highlights y of
             None \<Rightarrow>
               Inl (ValueError missing_keys_message (Some (KeyError ''highlights'')))
           | Some highlights \<Rightarrow>
               (if length highlights = 0 then Inr [(text, None)]
                else
                  (case expand_loop text (sort_key hl_start highlights) ([], 0) of
                     (list_format, index) \<Rightarrow>
                       Inr (list_format @ [(slice_from text index, None)])))))"

text \<open>
  The merge pass, on the state \<open>(output, running_text, running_category)\<close>;
  \<open>running_text\<close> is \<open>None\<close> until the first tuple has been read.
\<close>

fun combine_step ::
  "string \<Rightarrow> segment list \<times> string option \<times> category option \<Rightarrow> segment \<Rightarrow>
   segment list \<times> string option \<times> category option" where
  "combine_step sep (output, running_text, running_category) (text, category) =
     (case running_text of
        None \<Rightarrow> (output, Some text, category)
      | Some rt \<Rightarrow>
          if category = running_category
            then (output, Some (rt @ sep @ text), running_category)
          else if text = [] then (output, running_text, running_category)
          else (output @ [(rt, running_category)], Some text, category))"

fun combine_loop ::
  "string \<Rightarrow> segment list \<Rightarrow> segment list \<times> string option \<times> category option \<Rightarrow>
   segment list \<times> string option \<times> category option" where
  "combine_loop sep [] st = st"
| "combine_loop sep (item # y) st = combine_loop sep y (combine_step sep st item)"

text \<open>The final \<open>if running_text is not None: output.append(...)\<close>.\<close>

definition flush_running ::
  "segment list \<times> string option \<times> category option \<Rightarrow> segment list" where
  "flush_running st =
     (case st of
        (output, running_text, running_category) \<Rightarrow>
          (case running_text of
             None \<Rightarrow> output
           | Some rt \<Rightarrow> output @ [(rt, running_category)]))"

definition combine :: "config \<Rightarrow> segment list \<Rightarrow> segment list" where
  "combine self y = flush_running (combine_loop (adjacent_separator self) y ([], None, None))"

definition postprocess :: "config \<Rightarrow> py_value option \<Rightarrow> error + segment list option" where
  "postprocess self y =
     (case y of
        None \<Rightarrow> Inr None
      | Some v \<Rightarrow>
          (case (case v of Segments segs \<Rightarrow> Inr segs | Dict d \<Rightarrow> expand_dict d) of
             Inl e \<Rightarrow> Inl e
           | Inr segs \<Rightarrow>
               if combine_adjacent self then Inr (Some (combine self segs))
               else Inr (Some segs)))"

section \<open>tokenize and get_interpretation_scores\<close>

text \<open>
  The loop \<open>for index in range(len(tokens))\<close>, on the list
  \<open>leave_one_out_strings\<close>.
\<close>

fun tokenize_loop ::
  "config \<Rightarrow> string list \<Rightarrow> nat list \<Rightarrow> string list \<Rightarrow> error + string list" where
  "tokenize_loop self tokens [] leave_one_out_strings = Inr leave_one_out_strings"
| "tokenize_loop self tokens (index # rest) leave_one_out_strings =
     (case (case interpretation_replacement self of
              None \<Rightarrow> list_pop tokens index
            | Some r \<Rightarrow> list_set tokens index r) of
        Inl e \<Rightarrow> Inl e
      | Inr leave_one_out_set \<Rightarrow>
          tokenize_loop self tokens rest
            (leave_one_out_strings @
               [join (interpretation_separator self) leave_one_out_set]))"

definition tokenize :: "config \<Rightarrow> string \<Rightarrow> error + string list \<times> string list" where
  "tokenize self x =
     (case str_split x (interpretation_separator self) of
        Inl e \<Rightarrow> Inl e
      | Inr tokens \<Rightarrow>
          (case tokenize_loop self tokens [0..<length tokens] [] of
             Inl e \<Rightarrow> Inl e
           | Inr leave_one_out_strings \<Rightarrow> Inr (tokens, leave_one_out_strings)))"

text \<open>
  The loop over \<open>zip(tokens, scores)\<close>. The scores are only passed on; the
  literal \<open>0\<close> is the zero of their type.
\<close>

fun scores_loop ::
  "string \<Rightarrow> (string \<times> 's) list \<Rightarrow> (string \<times> 's) list \<Rightarrow> (string \<times> 's::zero) list" where
  "scores_loop sep [] result = result"
| "scores_loop sep ((token, score) # rest) result =
     scores_loop sep rest (result @ [(token, score), (sep, 0)])"

definition get_interpretation_scores ::
  "config \<Rightarrow> 's list \<Rightarrow> string list \<Rightarrow> (string \<times> 's::zero) list" where
  "get_interpretation_scores self scores tokens =
     scores_loop (interpretation_separator self) (zip tokens scores) []"

text \<open>
  The keyword defaults of \<open>__init__\<close> and of \<open>set_interpret_parameters\<close>.
\<close>

definition default_config :: config where
  "default_config =
     \<lparr>combine_adjacent = False, adjacent_separator = [],
      interpretation_separator = '' '', interpretation_replacement = None\<rparr>"

section \<open>Notions used in the statements\<close>

text \<open>
  A span is within the text when \<open>0 \<le> start \<le> end \<le> len(text)\<close>. Two spans
  overlap when some character position lies in both half-open ranges.
\<close>

definition in_bounds :: "string \<Rightarrow> highlight \<Rightarrow> bool" where
  "in_bounds text h \<longleftrightarrow>
     0 \<le> hl_start h \<and> hl_start h \<le> hl_end h \<and> hl_end h \<le> int (length text)"

definition overlap :: "highlight \<Rightarrow> highlight \<Rightarrow> bool" where
  "overlap a b \<longleftrightarrow> max (hl_start a) (hl_start b) < min (hl_end a) (hl_end b)"

fun non_overlapping :: "highlight list \<Rightarrow> bool" where
  "non_overlapping [] = True"
| "non_overlapping (h # hs) = (list_all (\<lambda>g. \<not> overlap h g) hs \<and> non_overlapping hs)"

text \<open>
  \<open>apart a b\<close>, for a span \<open>a\<close> listed before a span \<open>b\<close>: \<open>a\<close> ends at or before
  the start of \<open>b\<close>, or \<open>b\<close> ends at or before the start of \<open>a\<close> and starts
  strictly before it. For two spans of positive length this is \<open>\<not> overlap a b\<close>.
\<close>

definition apart :: "highlight \<Rightarrow> highlight \<Rightarrow> bool" where
  "apart a b \<longleftrightarrow>
     hl_end a \<le> hl_start b \<or> (hl_end b \<le> hl_start a \<and> hl_start b < hl_start a)"

fun separated :: "highlight list \<Rightarrow> bool" where
  "separated [] = True"
| "separated (h # hs) = (list_all (apart h) hs \<and> separated hs)"

definition ends_before :: "highlight \<Rightarrow> highlight \<Rightarrow> bool" where
  "ends_before a b \<longleftrightarrow> hl_end a \<le> hl_start b"

text \<open>
  The spans \<open>es\<close> lie one after the other between the cursor \<open>i\<close> and \<open>n\<close>.
\<close>

fun chained :: "int \<Rightarrow> highlight list \<Rightarrow> int \<Rightarrow> bool" where
  "chained i [] n = (i \<le> n)"
| "chained i (e # es) n =
     (i \<le> hl_start e \<and> hl_start e \<le> hl_end e \<and> chained (hl_end e) es n)"

text \<open>The two tuples that one entity adds, given the cursor before it.\<close>

definition expand_pair :: "string \<Rightarrow> int \<times> highlight \<Rightarrow> segment list" where
  "expand_pair text p =
     [(slice text (fst p) (hl_start (snd p)), None),
      (slice text (hl_start (snd p)) (hl_end (snd p)), highlight_type (snd p))]"

text \<open>
  The merge pass without the output accumulator: what is emitted from a running
  tuple \<open>(rt, rc)\<close> and the remaining tuples.
\<close>

fun merge_from ::
  "string \<Rightarrow> string \<Rightarrow> category option \<Rightarrow> segment list \<Rightarrow> segment list" where
  "merge_from sep rt rc [] = [(rt, rc)]"
| "merge_from sep rt rc ((t, c) # y) =
     (if c = rc then merge_from sep (rt @ sep @ t) rc y
      else if t = [] then merge_from sep rt rc y
      else (rt, rc) # merge_from sep t c y)"

text \<open>The masked variant for the token index \<open>i\<close>.\<close>

definition masked :: "config \<Rightarrow> string list \<Rightarrow> nat \<Rightarrow> string" where
  "masked self tokens i =
     join (interpretation_separator self)
       (case interpretation_replacement self of
          None \<Rightarrow> take i tokens @ drop (Suc i) tokens
        | Some r \<Rightarrow> tokens[i := r])"

text \<open>A key name between apostrophes, as the error message prints it.\<close>

definition quoted :: "string \<Rightarrow> string" where
  "quoted s = [CHR 0x27] @ s @ [CHR 0x27]"

section \<open>Lists of pairs\<close>

lemma concat_pairs_length: "length (concat (map (\<lambda>x. [f x, g x]) xs)) = 2 * length xs"
  by (induction xs) simp_all

lemma concat_pairs_even:
  "k < length xs \<Longrightarrow> concat (map (\<lambda>x. [f x, g x]) xs) ! (2 * k) = f (xs ! k)"
proof (induction xs arbitrary: k)
  case Nil
  then show ?case by simp
next
  case (Cons x xs)
  then show ?case by (cases k) simp_all
qed

lemma concat_pairs_odd:
  "k < length xs \<Longrightarrow> concat (map (\<lambda>x. [f x, g x]) xs) ! (2 * k + 1) = g (xs ! k)"
proof (induction xs arbitrary: k)
  case Nil
  then show ?case by simp
next
  case (Cons x xs)
  then show ?case by (cases k) simp_all
qed

lemma pairs_snoc_length:
  "length (concat (map (\<lambda>x. [f x, g x]) xs) @ [z]) = 2 * length xs + 1"
  by (induction xs) simp_all

lemma pairs_snoc_even:
  "k < length xs \<Longrightarrow> (concat (map (\<lambda>x. [f x, g x]) xs) @ [z]) ! (2 * k) = f (xs ! k)"
proof (induction xs arbitrary: k)
  case Nil
  then show ?case by simp
next
  case (Cons x xs)
  then show ?case by (cases k) simp_all
qed

lemma pairs_snoc_odd:
  "k < length xs \<Longrightarrow> (concat (map (\<lambda>x. [f x, g x]) xs) @ [z]) ! (2 * k + 1) = g (xs ! k)"
proof (induction xs arbitrary: k)
  case Nil
  then show ?case by simp
next
  case (Cons x xs)
  then show ?case by (cases k) simp_all
qed

lemma pairs_snoc_last:
  "(concat (map (\<lambda>x. [f x, g x]) xs) @ [z]) ! (2 * length xs) = z"
  by (induction xs) simp_all

section \<open>The expansion of a dictionary\<close>

lemma expand_loop_eq:
  "expand_loop text es (lf, i)
     = (lf @ concat (map (expand_pair text) (zip (i # map hl_end es) es)),
        last (i # map hl_end es))"
proof (induction es arbitrary: lf i)
  case Nil
  show ?case by simp
next
  case (Cons e es)
  show ?case by (simp add: Cons.IH expand_pair_def)
qed

lemma apart_iff_not_overlap:
  "hl_start a < hl_end a \<Longrightarrow> hl_start b < hl_end b \<Longrightarrow> apart a b \<longleftrightarrow> \<not> overlap a b"
  by (auto simp add: apart_def overlap_def)

lemma non_overlapping_separated:
  "list_all (\<lambda>h. hl_start h < hl_end h) hs \<Longrightarrow> non_overlapping hs \<Longrightarrow> separated hs"
proof (induction hs)
  case Nil
  show ?case by simp
next
  case (Cons h hs)
  from Cons.prems have "list_all (apart h) hs"
    by (auto simp add: list_all_iff apart_iff_not_overlap)
  with Cons show ?case by simp
qed

lemma insort_ends_before:
  assumes "sorted (map hl_start ys)" "sorted_wrt ends_before ys" "list_all (apart x) ys"
    and "hl_start x \<le> hl_end x"
  shows "sorted_wrt ends_before (insort_key hl_start x ys)"
  using assms
proof (induction ys)
  case Nil
  then show ?case by simp
next
  case (Cons y ys)
  show ?case
  proof (cases "hl_start x \<le> hl_start y")
    case True
    have "ends_before x z" if "z \<in> set (y # ys)" for z
    proof -
      from that Cons.prems(1) have "hl_start y \<le> hl_start z" by auto
      moreover from that Cons.prems(3) have "apart x z" by (auto simp add: list_all_iff)
      ultimately show ?thesis using True by (auto simp add: apart_def ends_before_def)
    qed
    with True Cons.prems(2) show ?thesis by simp
  next
    case False
    from Cons.prems have ih: "sorted_wrt ends_before (insort_key hl_start x ys)"
      by (intro Cons.IH) simp_all
    from Cons.prems(3) have "apart x y" by simp
    with False Cons.prems(4) have "ends_before y x"
      by (auto simp add: apart_def ends_before_def)
    with Cons.prems(2) have "\<forall>z\<in>set (insort_key hl_start x ys). ends_before y z"
      by (auto simp add: set_insort_key)
    with False ih show ?thesis by simp
  qed
qed

lemma sort_ends_before:
  "separated hs \<Longrightarrow> list_all (\<lambda>h. hl_start h \<le> hl_end h) hs
     \<Longrightarrow> sorted_wrt ends_before (sort_key hl_start hs)"
proof (induction hs)
  case Nil
  then show ?case by simp
next
  case (Cons h hs)
  from Cons.prems have "list_all (apart h) (sort_key hl_start hs)"
    by (simp add: list_all_iff)
  with Cons show ?case
    by (simp add: insort_ends_before)
qed

lemma chained_le: "chained i es n \<Longrightarrow> i \<le> n"
proof (induction es arbitrary: i)
  case Nil
  then show ?case by simp
next
  case (Cons e es)
  from Cons.prems have "chained (hl_end e) es n" by simp
  then have "hl_end e \<le> n" by (rule Cons.IH)
  with Cons.prems show ?case by simp
qed

lemma chained_sorted:
  "sorted_wrt ends_before es \<Longrightarrow> list_all (in_bounds text) es \<Longrightarrow> i \<le> int (length text)
     \<Longrightarrow> list_all (\<lambda>e. i \<le> hl_start e) es \<Longrightarrow> chained i es (int (length text))"
proof (induction es arbitrary: i)
  case Nil
  then show ?case by simp
next
  case (Cons e es)
  from Cons.prems have "chained (hl_end e) es (int (length text))"
    by (intro Cons.IH) (auto simp add: in_bounds_def ends_before_def list_all_iff)
  with Cons.prems show ?case by (simp add: in_bounds_def)
qed

lemma clamp_index_nat: "0 \<le> i \<Longrightarrow> i \<le> int n \<Longrightarrow> clamp_index n i = nat i"
  by (auto simp add: clamp_index_def)

lemma slice_glue:
  assumes "0 \<le> i" "i \<le> s" "s \<le> e" "e \<le> int (length t)"
  shows "slice t i s @ slice t s e @ slice_from t e = slice_from t i"
proof -
  have s1: "take (nat s - nat i) (drop (nat i) t) @ drop (nat s) t = drop (nat i) t"
    using assms
    by (metis add_diff_inverse_nat append_take_drop_id drop_drop nat_mono not_less add.commute)
  have s2: "take (nat e - nat s) (drop (nat s) t) @ drop (nat e) t = drop (nat s) t"
    using assms
    by (metis add_diff_inverse_nat append_take_drop_id drop_drop nat_mono not_less add.commute)
  from assms s1 s2 show ?thesis
    by (simp add: slice_def slice_from_def clamp_index_nat Let_def)
qed

lemma expand_loop_cat:
  "chained index es (int (length text)) \<Longrightarrow> 0 \<le> index
     \<Longrightarrow> expand_loop text es (lf, index) = (lf', index')
     \<Longrightarrow> concat (map fst lf') @ slice_from text index'
         = concat (map fst lf) @ slice_from text index"
proof (induction es arbitrary: lf index)
  case Nil
  then show ?case by simp
next
  case (Cons e es)
  from Cons.prems have b: "index \<le> hl_start e" "hl_start e \<le> hl_end e"
    "chained (hl_end e) es (int (length text))"
    by simp_all
  from b(3) have "hl_end e \<le> int (length text)" by (rule chained_le)
  with b Cons.prems(2)
  have glue: "slice text index (hl_start e) @ slice text (hl_start e) (hl_end e)
      @ slice_from text (hl_end e) = slice_from text index"
    by (intro slice_glue)
  from Cons.prems(3)
  have "expand_loop text es
      (lf @ [(slice text index (hl_start e), None),
             (slice text (hl_start e) (hl_end e), highlight_type e)], hl_end e) = (lf', index')"
    by simp
  from Cons.IH [OF b(3) _ this] b Cons.prems(2)
  have "concat (map fst lf') @ slice_from text index'
      = concat (map fst lf) @ slice text index (hl_start e)
          @ slice text (hl_start e) (hl_end e) @ slice_from text (hl_end e)"
    by simp
  with glue show ?case by simp
qed

section \<open>The merge pass\<close>

lemma combine_loop_merge_from:
  "flush_running (combine_loop sep y (out, Some rt, rc)) = out @ merge_from sep rt rc y"
proof (induction y arbitrary: out rt rc)
  case Nil
  show ?case by (simp add: flush_running_def)
next
  case (Cons item y)
  obtain t c where item: "item = (t, c)" by (cases item)
  show ?case unfolding item by (simp add: Cons.IH)
qed

lemma combine_Nil: "combine self [] = []"
  by (simp add: combine_def flush_running_def)

lemma combine_Cons:
  "combine self ((t, c) # y) = merge_from (adjacent_separator self) t c y"
  using combine_loop_merge_from [of "adjacent_separator self" y "[]" t c]
  by (simp add: combine_def)

lemma merge_from_shape:
  "\<exists>r zs. merge_from sep rt rc y = (r, rc) # zs \<and> (rt \<noteq> [] \<longrightarrow> r \<noteq> [])
     \<and> list_all (\<lambda>z. fst z \<noteq> []) zs \<and> distinct_adj (rc # map snd zs)"
proof (induction y arbitrary: rt rc)
  case Nil
  show ?case by simp
next
  case (Cons item y)
  obtain t c where item: "item = (t, c)" by (cases item)
  show ?case
  proof (cases "c = rc")
    case True
    with Cons.IH [of "rt @ sep @ t" rc] show ?thesis by (fastforce simp add: item)
  next
    case False
    show ?thesis
    proof (cases "t = []")
      case True
      with False Cons.IH [of rt rc] show ?thesis by (simp add: item)
    next
      case nonempty: False
      from Cons.IH [of t c] obtain r zs where
        m: "merge_from sep t c y = (r, c) # zs" and r: "t \<noteq> [] \<longrightarrow> r \<noteq> []"
        and z: "list_all (\<lambda>z. fst z \<noteq> []) zs" "distinct_adj (c # map snd zs)"
        by blast
      from r nonempty have "r \<noteq> []" by simp
      with False nonempty m z show ?thesis by (simp add: item)
    qed
  qed
qed

lemma merge_from_fixed:
  "list_all (\<lambda>z. fst z \<noteq> []) zs \<Longrightarrow> distinct_adj (rc # map snd zs)
     \<Longrightarrow> merge_from sep rt rc zs = (rt, rc) # zs"
proof (induction zs arbitrary: rt rc)
  case Nil
  show ?case by simp
next
  case (Cons item zs)
  obtain t c where item: "item = (t, c)" by (cases item)
  from Cons.prems have "t \<noteq> []" "rc \<noteq> c" "list_all (\<lambda>z. fst z \<noteq> []) zs"
    "distinct_adj (c # map snd zs)"
    by (simp_all add: item)
  with Cons.IH [of c t] show ?case by (auto simp add: item)
qed




section \<open>Splitting and the leave-one-out loop\<close>

lemma find_sub_Some:
  "find_sub sep x = Some j \<Longrightarrow> take (length sep) (drop j x) = sep \<and> j + length sep \<le> length x"
proof (induction x arbitrary: j)
  case Nil
  then show ?case by (simp split: if_splits)
next
  case (Cons c cs)
  show ?case
  proof (cases "take (length sep) (c # cs) = sep")
    case True
    then have "length (take (length sep) (c # cs)) = length sep"
      by simp
    then have "length sep \<le> length (c # cs)"
      by (simp add: min_def split: if_splits)
    with True Cons.prems show ?thesis by simp
  next
    case False
    with Cons.prems obtain k where "find_sub sep cs = Some k" "j = Suc k"
      by auto
    with Cons.IH show ?thesis by simp
  qed
qed

lemma find_sub_cut:
  assumes "find_sub sep x = Some j"
  shows "take j x @ sep @ drop (j + length sep) x = x"
proof -
  from find_sub_Some [OF assms] have "take (length sep) (drop j x) = sep" by simp
  then have "sep @ drop (j + length sep) x = drop j x"
    by (metis append_take_drop_id drop_drop add.commute)
  then show ?thesis by simp
qed

lemma find_sub_take:
  "sep \<noteq> [] \<Longrightarrow> find_sub sep x = Some j \<Longrightarrow> find_sub sep (take j x) = None"
proof (induction x arbitrary: j)
  case Nil
  then show ?case by simp
next
  case (Cons c cs)
  show ?case
  proof (cases "take (length sep) (c # cs) = sep")
    case True
    with Cons.prems show ?thesis by simp
  next
    case False
    with Cons.prems obtain k where k: "find_sub sep cs = Some k" "j = Suc k"
      by auto
    have "take (length sep) (c # take k cs) \<noteq> sep"
    proof
      assume eq: "take (length sep) (c # take k cs) = sep"
      then have "length (take (length sep) (c # take k cs)) = length sep" by simp
      then have "length sep \<le> Suc k" by (simp add: min_def split: if_splits)
      then have "take (length sep) (c # take k cs) = take (length sep) (c # cs)"
        by (metis take_Suc_Cons take_take min.absorb1 min.commute)
      with eq False show False by simp
    qed
    with k Cons.IH [OF Cons.prems(1) k(1)] show ?thesis by simp
  qed
qed

lemma split_loop_ne: "split_loop sep x \<noteq> []"
  by (subst split_loop.simps) (simp split: option.splits)

lemma join_Cons: "ys \<noteq> [] \<Longrightarrow> join sep (y # ys) = y @ sep @ join sep ys"
  by (cases ys) simp_all

lemma join_split_loop: "join sep (split_loop sep x) = x"
proof (induction sep x rule: split_loop.induct)
  case (1 sep x)
  show ?case
  proof (cases "sep = []")
    case True
    then show ?thesis by (subst split_loop.simps) simp
  next
    case False
    show ?thesis
    proof (cases "find_sub sep x")
      case None
      with False show ?thesis by (subst split_loop.simps) simp
    next
      case (Some j)
      with False "1.IH" have "join sep (split_loop sep (drop (j + length sep) x))
          = drop (j + length sep) x"
        by simp
      with False Some find_sub_cut [OF Some] show ?thesis
        by (subst split_loop.simps) (simp add: join_Cons split_loop_ne)
    qed
  qed
qed

lemma split_loop_tokens_free:
  "sep \<noteq> [] \<Longrightarrow> list_all (\<lambda>tok. find_sub sep tok = None) (split_loop sep x)"
proof (induction sep x rule: split_loop.induct)
  case (1 sep x)
  show ?case
  proof (cases "find_sub sep x")
    case None
    with "1.prems" show ?thesis by (subst split_loop.simps) simp
  next
    case (Some j)
    with "1.prems" "1.IH"
    have "list_all (\<lambda>tok. find_sub sep tok = None) (split_loop sep (drop (j + length sep) x))"
      by simp
    with "1.prems" Some find_sub_take [OF "1.prems" Some] show ?thesis
      by (subst split_loop.simps) simp
  qed
qed

text \<open>A separator at the front gives an empty first token: nothing is collapsed.\<close>

lemma split_loop_leading_sep:
  assumes "sep \<noteq> []"
  shows "split_loop sep (sep @ x) = [] # split_loop sep x"
proof -
  from assms have "find_sub sep (sep @ x) = Some 0"
    by (cases sep) simp_all
  with assms show ?thesis
    by (subst split_loop.simps) simp
qed

lemma split_loop_consecutive_example:
  "split_loop '' '' ''a  b '' = [''a'', '''', ''b'', '''']"
  by code_simp

lemma tokenize_loop_eq:
  "list_all (\<lambda>i. i < length tokens) idxs
     \<Longrightarrow> tokenize_loop self tokens idxs acc = Inr (acc @ map (masked self tokens) idxs)"
proof (induction idxs arbitrary: acc)
  case Nil
  show ?case by simp
next
  case (Cons i idxs)
  then show ?case
    by (simp add: list_pop_def list_set_def masked_def split: option.splits)
qed

lemma tokenize_eq:
  "interpretation_separator self \<noteq> [] \<Longrightarrow>
     tokenize self x =
       Inr (split_loop (interpretation_separator self) x,
            map (masked self (split_loop (interpretation_separator self) x))
              [0..<length (split_loop (interpretation_separator self) x)])"
  by (simp add: tokenize_def str_split_def tokenize_loop_eq list_all_iff)

lemma scores_loop_eq:
  "scores_loop sep ps result
     = result @ concat (map (\<lambda>(token, score). [(token, score), (sep, 0)]) ps)"
  by (induction ps arbitrary: result) auto

section \<open>Round trip of the expansion\<close>

text \<open>
  C1 (as amended). For a dictionary whose highlights lie within the text
  (\<open>0 \<le> start \<le> end \<le> len(text)\<close>) and are pairwise apart, \<open>postprocess\<close> with
  \<open>combine_adjacent = False\<close> returns a list of tuples whose texts, concatenated in
  order, are the original text. Spans of positive length are apart exactly when they
  do not overlap (\<open>apart_iff_not_overlap\<close>, \<open>non_overlapping_separated\<close>); what is
  excluded is a span of length zero that lies inside another span, or that is listed
  after a span of positive length with the same start.
\<close>

theorem postprocess_roundtrip:
  assumes "\<not> combine_adjacent self" "list_all (in_bounds t) hs" "separated hs"
  shows "\<exists>ys. postprocess self (Some (Dict \<lparr>d_text = Some t, d_highlights = Some hs\<rparr>))
            = Inr (Some ys) \<and> concat (map fst ys) = t"
proof (cases "hs = []")
  case True
  with assms(1) show ?thesis by (simp add: postprocess_def expand_dict_def)
next
  case False
  obtain lf index where run: "expand_loop t (sort_key hl_start hs) ([], 0) = (lf, index)"
    by (cases "expand_loop t (sort_key hl_start hs) ([], 0)")
  from assms(2) have "list_all (\<lambda>h. hl_start h \<le> hl_end h) hs"
    by (simp add: list_all_iff in_bounds_def)
  with assms(3) have "sorted_wrt ends_before (sort_key hl_start hs)"
    by (rule sort_ends_before)
  moreover from assms(2) have "list_all (in_bounds t) (sort_key hl_start hs)"
    by (simp add: list_all_iff)
  moreover from assms(2) have "list_all (\<lambda>e. 0 \<le> hl_start e) (sort_key hl_start hs)"
    by (simp add: list_all_iff in_bounds_def)
  ultimately have "chained 0 (sort_key hl_start hs) (int (length t))"
    by (intro chained_sorted) simp_all
  from expand_loop_cat [OF this _ run]
  have "concat (map fst lf) @ slice_from t index = t"
    by (simp add: slice_from_def clamp_index_def)
  with False assms(1) run show ?thesis
    by (simp add: postprocess_def expand_dict_def)
qed

text \<open>
  The theorem at the text \<open>The cat sat\<close> with an empty span at 7 listed before the
  span 4..7.
\<close>

theorem postprocess_roundtrip_witness:
  "\<not> combine_adjacent default_config
   \<and> list_all (in_bounds ''The cat sat'')
        [\<lparr>highlight_type = Some (CStr ''X''), hl_start = 7, hl_end = 7\<rparr>,
         \<lparr>highlight_type = Some (CStr ''ANIMAL''), hl_start = 4, hl_end = 7\<rparr>]
   \<and> separated
        [\<lparr>highlight_type = Some (CStr ''X''), hl_start = 7, hl_end = 7\<rparr>,
         \<lparr>highlight_type = Some (CStr ''ANIMAL''), hl_start = 4, hl_end = 7\<rparr>]
   \<and> (\<exists>ys. postprocess default_config
          (Some (Dict \<lparr>d_text = Some ''The cat sat'', d_highlights = Some
            [\<lparr>highlight_type = Some (CStr ''X''), hl_start = 7, hl_end = 7\<rparr>,
             \<lparr>highlight_type = Some (CStr ''ANIMAL''), hl_start = 4, hl_end = 7\<rparr>]\<rparr>))
          = Inr (Some ys) \<and> concat (map fst ys) = ''The cat sat'')"
proof -
  have a: "\<not> combine_adjacent default_config"
    by (simp add: default_config_def)
  have b: "list_all (in_bounds ''The cat sat'')
        [\<lparr>highlight_type = Some (CStr ''X''), hl_start = 7, hl_end = 7\<rparr>,
         \<lparr>highlight_type = Some (CStr ''ANIMAL''), hl_start = 4, hl_end = 7\<rparr>]"
    by (simp add: in_bounds_def)
  have c: "separated
        [\<lparr>highlight_type = Some (CStr ''X''), hl_start = 7, hl_end = 7\<rparr>,
         \<lparr>highlight_type = Some (CStr ''ANIMAL''), hl_start = 4, hl_end = 7\<rparr>]"
    by (simp add: apart_def)
  note d = postprocess_roundtrip [OF a b c]
  show ?thesis
    by (intro conjI) (rule a, rule b, rule c, rule d)
qed

text \<open>
  The claim as first stated, for all non-overlapping spans within the text, fails:
  in \<open>abcd\<close> the span 1..3 and the empty span 1..1 share no character, yet the
  empty span is sorted behind the other one and moves the cursor back to 1.
\<close>

theorem postprocess_roundtrip_counterexample:
  "\<not> combine_adjacent default_config
   \<and> list_all (in_bounds ''abcd'')
        [\<lparr>highlight_type = Some (CStr ''A''), hl_start = 1, hl_end = 3\<rparr>,
         \<lparr>highlight_type = Some (CStr ''B''), hl_start = 1, hl_end = 1\<rparr>]
   \<and> non_overlapping
        [\<lparr>highlight_type = Some (CStr ''A''), hl_start = 1, hl_end = 3\<rparr>,
         \<lparr>highlight_type = Some (CStr ''B''), hl_start = 1, hl_end = 1\<rparr>]
   \<and> postprocess default_config
       (Some (Dict \<lparr>d_text = Some ''abcd'', d_highlights = Some
        [\<lparr>highlight_type = Some (CStr ''A''), hl_start = 1, hl_end = 3\<rparr>,
         \<lparr>highlight_type = Some (CStr ''B''), hl_start = 1, hl_end = 1\<rparr>]\<rparr>))
     = Inr (Some [(''a'', None), (''bc'', Some (CStr ''A'')), ('''', None),
                  ('''', Some (CStr ''B'')), (''bcd'', None)])
   \<and> concat (map fst [(''a'', None), (''bc'', Some (CStr ''A'')), ('''', None),
                  ('''', Some (CStr ''B'')), (''bcd'', None :: category option)]) \<noteq> ''abcd''"
  by (simp add: default_config_def in_bounds_def overlap_def postprocess_def expand_dict_def
      slice_def slice_from_def clamp_index_def)

lemma postprocess_example:
  "postprocess default_config
     (Some (Dict \<lparr>d_text = Some ''The cat sat'', d_highlights = Some
        [\<lparr>highlight_type = Some (CStr ''ANIMAL''), hl_start = 4, hl_end = 7\<rparr>]\<rparr>))
   = Inr (Some [(''The '', None), (''cat'', Some (CStr ''ANIMAL'')), ('' sat'', None)])"
  by (simp add: default_config_def postprocess_def expand_dict_def
      slice_def slice_from_def clamp_index_def)

section \<open>Merging\<close>

text \<open>
  C2. The merge pass is idempotent: for every list of tuples and every separator,
  merging the merged list gives the merged list again.
\<close>

theorem combine_idempotent: "combine self (combine self y) = combine self y"
proof (cases y)
  case Nil
  then show ?thesis by (simp add: combine_Nil)
next
  case (Cons item y')
  obtain t c where item: "item = (t, c)" by (cases item)
  from merge_from_shape [of "adjacent_separator self" t c y'] obtain r zs where
    m: "merge_from (adjacent_separator self) t c y' = (r, c) # zs"
    and z: "list_all (\<lambda>z. fst z \<noteq> []) zs" "distinct_adj (c # map snd zs)"
    by blast
  from merge_from_fixed [OF z] m show ?thesis
    by (simp add: Cons item combine_Cons)
qed

text \<open>
  C3. With \<open>combine_adjacent = False\<close>, \<open>postprocess\<close> returns the normalized list
  unchanged: \<open>None\<close> for \<open>None\<close>, a list of tuples as it is, and for a dictionary
  exactly what the expansion produced (or its error).
\<close>

theorem postprocess_identity:
  "\<not> combine_adjacent self \<Longrightarrow>
     postprocess self None = Inr None
     \<and> postprocess self (Some (Segments y)) = Inr (Some y)
     \<and> postprocess self (Some (Dict d)) = map_sum id Some (expand_dict d)"
  by (simp add: postprocess_def split: sum.splits)

theorem postprocess_identity_witness:
  "\<not> combine_adjacent default_config
   \<and> postprocess default_config
        (Some (Segments [(''a'', Some (CStr ''A'')), (''b'', Some (CStr ''A'')), ('''', None)]))
      = Inr (Some [(''a'', Some (CStr ''A'')), (''b'', Some (CStr ''A'')), ('''', None)])"
proof -
  have a: "\<not> combine_adjacent default_config"
    by (simp add: default_config_def)
  from postprocess_identity [OF a]
  have b: "postprocess default_config
        (Some (Segments [(''a'', Some (CStr ''A'')), (''b'', Some (CStr ''A'')), ('''', None)]))
      = Inr (Some [(''a'', Some (CStr ''A'')), (''b'', Some (CStr ''A'')), ('''', None)])"
    by (rule conjunct1 [OF conjunct2])
  show ?thesis
    by (intro conjI) (rule a, rule b)
qed




section \<open>Shape of the expansion\<close>

text \<open>
  C4. For a dictionary with the text \<open>t\<close> and an empty list of highlights,
  \<open>postprocess\<close> returns exactly the one-tuple list \<open>[(t, None)]\<close>, whether
  \<open>combine_adjacent\<close> is set or not.
\<close>

theorem postprocess_zero_highlights:
  "postprocess self (Some (Dict \<lparr>d_text = Some t, d_highlights = Some []\<rparr>))
     = Inr (Some [(t, None)])"
  by (simp add: postprocess_def expand_dict_def combine_def flush_running_def)

text \<open>
  C5. For a dictionary with \<open>n \<ge> 1\<close> highlights, whether they overlap or not, and
  \<open>combine_adjacent = False\<close>, the result has exactly \<open>2n + 1\<close> tuples. With the
  highlights in the order of the stable sort by start, the tuple at position \<open>2k\<close>
  is the gap before the \<open>k\<close>-th highlight, from the end of the one before it (from 0
  for the first), and carries \<open>None\<close>; the tuple at position \<open>2k + 1\<close> is the text
  of the \<open>k\<close>-th highlight with its label; the last tuple is the rest of the text
  and carries \<open>None\<close>. A gap is emitted also when its text is empty.
\<close>

theorem expansion_shape:
  assumes "hs \<noteq> []" "\<not> combine_adjacent self"
  shows "\<exists>ys. postprocess self (Some (Dict \<lparr>d_text = Some t, d_highlights = Some hs\<rparr>))
            = Inr (Some ys)
     \<and> length ys = 2 * length hs + 1
     \<and> (\<forall>k < length hs.
          ys ! (2 * k)
            = (slice t ((0 # map hl_end (sort_key hl_start hs)) ! k)
                 (hl_start (sort_key hl_start hs ! k)), None)
        \<and> ys ! (2 * k + 1)
            = (slice t (hl_start (sort_key hl_start hs ! k)) (hl_end (sort_key hl_start hs ! k)),
               highlight_type (sort_key hl_start hs ! k)))
     \<and> ys ! (2 * length hs) = (slice_from t (hl_end (last (sort_key hl_start hs))), None)"
proof -
  define es where "es = sort_key hl_start hs"
  define ps where "ps = zip (0 # map hl_end es) es"
  define f where "f = (\<lambda>p :: int \<times> highlight.
      (slice t (fst p) (hl_start (snd p)), None :: category option))"
  define g where "g = (\<lambda>p :: int \<times> highlight.
      (slice t (hl_start (snd p)) (hl_end (snd p)), highlight_type (snd p)))"
  define z where "z = (slice_from t (last (0 # map hl_end es)), None :: category option)"
  define ys where "ys = concat (map (\<lambda>p. [f p, g p]) ps) @ [z]"
  have len_es: "length es = length hs" by (simp add: es_def)
  have len_ps: "length ps = length hs" by (simp add: ps_def len_es)
  from assms(1) len_es have es_ne: "es \<noteq> []" by auto
  have ep: "expand_pair t = (\<lambda>p. [f p, g p])"
    by (rule ext) (simp add: expand_pair_def f_def g_def)
  have "expand_dict \<lparr>d_text = Some t, d_highlights = Some hs\<rparr> = Inr ys"
    using assms(1)
    by (simp add: expand_dict_def expand_loop_eq ep ys_def z_def ps_def es_def)
  with assms(2)
  have pp: "postprocess self (Some (Dict \<lparr>d_text = Some t, d_highlights = Some hs\<rparr>))
      = Inr (Some ys)"
    by (simp add: postprocess_def)
  have l: "length ys = 2 * length hs + 1"
    unfolding ys_def pairs_snoc_length len_ps ..
  have nth_ps: "ps ! k = ((0 # map hl_end es) ! k, es ! k)" if "k < length hs" for k
    unfolding ps_def using that len_es by (intro nth_zip) simp_all
  have ev: "ys ! (2 * k) = (slice t ((0 # map hl_end es) ! k) (hl_start (es ! k)), None)"
    if "k < length hs" for k
  proof -
    from that len_ps have "ys ! (2 * k) = f (ps ! k)"
      unfolding ys_def by (intro pairs_snoc_even) simp
    then show ?thesis by (simp add: nth_ps [OF that] f_def)
  qed
  have od: "ys ! (2 * k + 1)
      = (slice t (hl_start (es ! k)) (hl_end (es ! k)), highlight_type (es ! k))"
    if "k < length hs" for k
  proof -
    from that len_ps have "ys ! (2 * k + 1) = g (ps ! k)"
      unfolding ys_def by (intro pairs_snoc_odd) simp
    then show ?thesis by (simp add: nth_ps [OF that] g_def)
  qed
  have "ys ! (2 * length ps) = z"
    unfolding ys_def by (rule pairs_snoc_last)
  with es_ne have la: "ys ! (2 * length hs) = (slice_from t (hl_end (last es)), None)"
    by (simp add: len_ps z_def last_map)
  from pp l ev od la show ?thesis
    unfolding es_def by blast
qed

text \<open>
  The theorem at two adjacent spans of \<open>abcd\<close>: five tuples, three of them empty gaps.
\<close>

theorem expansion_shape_witness:
  "[\<lparr>highlight_type = Some (CStr ''A''), hl_start = 0, hl_end = 2\<rparr>,
    \<lparr>highlight_type = Some (CStr ''A''), hl_start = 2, hl_end = 4\<rparr>] \<noteq> []
   \<and> \<not> combine_adjacent default_config
   \<and> (\<exists>ys. postprocess default_config
          (Some (Dict \<lparr>d_text = Some ''abcd'', d_highlights = Some
            [\<lparr>highlight_type = Some (CStr ''A''), hl_start = 0, hl_end = 2\<rparr>,
             \<lparr>highlight_type = Some (CStr ''A''), hl_start = 2, hl_end = 4\<rparr>]\<rparr>))
          = Inr (Some ys) \<and> length ys = 5)"
proof -
  have a: "[\<lparr>highlight_type = Some (CStr ''A''), hl_start = 0, hl_end = 2\<rparr>,
    \<lparr>highlight_type = Some (CStr ''A''), hl_start = 2, hl_end = 4\<rparr>] \<noteq> []"
    by simp
  have b: "\<not> combine_adjacent default_config"
    by (simp add: default_config_def)
  from expansion_shape [OF a b, of "''abcd''"]
  have c: "\<exists>ys. postprocess default_config
          (Some (Dict \<lparr>d_text = Some ''abcd'', d_highlights = Some
            [\<lparr>highlight_type = Some (CStr ''A''), hl_start = 0, hl_end = 2\<rparr>,
             \<lparr>highlight_type = Some (CStr ''A''), hl_start = 2, hl_end = 4\<rparr>]\<rparr>))
          = Inr (Some ys) \<and> length ys = 5"
    by auto
  show ?thesis
    by (intro conjI) (rule a, rule b, rule c)
qed

lemma expansion_empty_gaps_example:
  "postprocess default_config
     (Some (Dict \<lparr>d_text = Some ''abcd'', d_highlights = Some
        [\<lparr>highlight_type = Some (CStr ''A''), hl_start = 0, hl_end = 2\<rparr>,
         \<lparr>highlight_type = Some (CStr ''A''), hl_start = 2, hl_end = 4\<rparr>]\<rparr>))
   = Inr (Some [('''', None), (''ab'', Some (CStr ''A'')), ('''', None),
                (''cd'', Some (CStr ''A'')), ('''', None)])"
  by (simp add: default_config_def postprocess_def expand_dict_def
      slice_def slice_from_def clamp_index_def)

section \<open>Errors of postprocess\<close>

text \<open>
  C8. \<open>postprocess\<close> raises exactly when its value is a dictionary that lacks the
  key \<open>"text"\<close> or the key \<open>"highlights"\<close>. The exception is then a \<open>ValueError\<close>
  whose message names both required keys, raised from the \<open>KeyError\<close> of the first
  missing key. A dictionary with both keys, a list of tuples and \<open>None\<close> never raise.
\<close>

theorem malformed_input_error:
  "((\<exists>e. postprocess self y = Inl e)
      \<longleftrightarrow> (\<exists>d. y = Some (Dict d) \<and> (d_text d = None \<or> d_highlights d = None)))
   \<and> (d_text d = None \<longrightarrow>
        postprocess self (Some (Dict d))
          = Inl (ValueError missing_keys_message (Some (KeyError ''text''))))
   \<and> (d_text d \<noteq> None \<and> d_highlights d = None \<longrightarrow>
        postprocess self (Some (Dict d))
          = Inl (ValueError missing_keys_message (Some (KeyError ''highlights''))))
   \<and> (\<exists>a b c. missing_keys_message
          = a @ quoted ''text'' @ b @ quoted ''highlights'' @ c)"
proof (intro conjI)
  show "(\<exists>e. postprocess self y = Inl e)
      \<longleftrightarrow> (\<exists>d. y = Some (Dict d) \<and> (d_text d = None \<or> d_highlights d = None))"
    by (auto simp add: postprocess_def expand_dict_def
          split: option.splits py_value.splits sum.splits prod.splits if_splits)
  show "d_text d = None \<longrightarrow>
        postprocess self (Some (Dict d))
          = Inl (ValueError missing_keys_message (Some (KeyError ''text'')))"
    by (simp add: postprocess_def expand_dict_def)
  show "d_text d \<noteq> None \<and> d_highlights d = None \<longrightarrow>
        postprocess self (Some (Dict d))
          = Inl (ValueError missing_keys_message (Some (KeyError ''highlights'')))"
    by (auto simp add: postprocess_def expand_dict_def)
  have "missing_keys_message
      = ''Expected a dictionary with keys '' @ quoted ''text'' @ '' and ''
          @ quoted ''highlights'' @ '' for the value of the HighlightedText component.''"
    by (simp add: missing_keys_message_def quoted_def)
  then show "\<exists>a b c. missing_keys_message
          = a @ quoted ''text'' @ b @ quoted ''highlights'' @ c"
    by blast
qed

theorem malformed_input_error_witness:
  "d_text \<lparr>d_text = Some ''abc'', d_highlights = None\<rparr> \<noteq> None
   \<and> d_highlights \<lparr>d_text = Some ''abc'', d_highlights = None\<rparr> = None
   \<and> postprocess default_config (Some (Dict \<lparr>d_text = Some ''abc'', d_highlights = None\<rparr>))
      = Inl (ValueError missing_keys_message (Some (KeyError ''highlights'')))"
proof -
  have a: "d_text \<lparr>d_text = Some ''abc'', d_highlights = None\<rparr> \<noteq> None"
    by simp
  have b: "d_highlights \<lparr>d_text = Some ''abc'', d_highlights = None\<rparr> = None"
    by simp
  note c = malformed_input_error
    [THEN conjunct2, THEN conjunct2, THEN conjunct1, rule_format, OF conjI, OF a b]
  show ?thesis
    by (intro conjI) (rule a, rule b, rule c)
qed

text \<open>
  C9. For every dictionary that has both keys, \<open>postprocess\<close> returns a list of
  tuples and raises nothing, also when the spans overlap, are out of order or lie
  outside the text: every slice is clamped.
\<close>

theorem overlap_no_error:
  "d_text d = Some t \<Longrightarrow> d_highlights d = Some hs \<Longrightarrow>
     \<exists>ys. postprocess self (Some (Dict d)) = Inr (Some ys)"
  by (simp add: postprocess_def expand_dict_def split: prod.splits)

theorem overlap_no_error_witness:
  "d_text \<lparr>d_text = Some ''abcdef'', d_highlights = Some
        [\<lparr>highlight_type = Some (CStr ''A''), hl_start = 2, hl_end = 5\<rparr>,
         \<lparr>highlight_type = Some (CStr ''B''), hl_start = 1, hl_end = 3\<rparr>]\<rparr> = Some ''abcdef''
   \<and> (\<exists>ys. postprocess default_config
          (Some (Dict \<lparr>d_text = Some ''abcdef'', d_highlights = Some
            [\<lparr>highlight_type = Some (CStr ''A''), hl_start = 2, hl_end = 5\<rparr>,
             \<lparr>highlight_type = Some (CStr ''B''), hl_start = 1, hl_end = 3\<rparr>]\<rparr>))
          = Inr (Some ys))"
proof -
  have a: "d_text \<lparr>d_text = Some ''abcdef'', d_highlights = Some
        [\<lparr>highlight_type = Some (CStr ''A''), hl_start = 2, hl_end = 5\<rparr>,
         \<lparr>highlight_type = Some (CStr ''B''), hl_start = 1, hl_end = 3\<rparr>]\<rparr> = Some ''abcdef''"
    by simp
  have b: "d_highlights \<lparr>d_text = Some ''abcdef'', d_highlights = Some
        [\<lparr>highlight_type = Some (CStr ''A''), hl_start = 2, hl_end = 5\<rparr>,
         \<lparr>highlight_type = Some (CStr ''B''), hl_start = 1, hl_end = 3\<rparr>]\<rparr>
      = Some [\<lparr>highlight_type = Some (CStr ''A''), hl_start = 2, hl_end = 5\<rparr>,
         \<lparr>highlight_type = Some (CStr ''B''), hl_start = 1, hl_end = 3\<rparr>]"
    by simp
  note c = overlap_no_error [OF a b, of default_config]
  show ?thesis
    by (intro conjI) (rule a, rule c)
qed

text \<open>What overlapping spans give: the gap before the later span is empty.\<close>

lemma overlap_garbled_example:
  "postprocess default_config
     (Some (Dict \<lparr>d_text = Some ''abcdef'', d_highlights = Some
        [\<lparr>highlight_type = Some (CStr ''A''), hl_start = 2, hl_end = 5\<rparr>,
         \<lparr>highlight_type = Some (CStr ''B''), hl_start = 1, hl_end = 3\<rparr>]\<rparr>))
   = Inr (Some [(''a'', None), (''bc'', Some (CStr ''B'')), ('''', None),
                (''cde'', Some (CStr ''A'')), (''f'', None)])"
  by (simp add: default_config_def postprocess_def expand_dict_def
      slice_def slice_from_def clamp_index_def)

section \<open>The leave-one-out interpreter\<close>

text \<open>
  C6 (as amended). For every string \<open>x\<close>, every non-empty separator and every
  replacement, \<open>tokenize\<close> returns the tokens of the plain split of \<open>x\<close> on the
  separator: joined with the separator they give \<open>x\<close> back, and no token contains
  the separator, so that consecutive separators give empty tokens. It returns as
  many masked variants as tokens; the variant for the index \<open>i\<close> is the token list
  with the token \<open>i\<close> removed (no replacement) or replaced by the replacement,
  joined with the separator. The third component of the Python tuple is the
  constant \<open>None\<close>.
\<close>

theorem tokenize_tokens_and_variants:
  assumes "interpretation_separator self \<noteq> []"
  shows "\<exists>tokens variants. tokenize self x = Inr (tokens, variants)
     \<and> tokens = split_loop (interpretation_separator self) x
     \<and> join (interpretation_separator self) tokens = x
     \<and> list_all (\<lambda>tok. find_sub (interpretation_separator self) tok = None) tokens
     \<and> length variants = length tokens
     \<and> (\<forall>i < length tokens.
          variants ! i =
            join (interpretation_separator self)
              (case interpretation_replacement self of
                 None \<Rightarrow> take i tokens @ drop (Suc i) tokens
               | Some r \<Rightarrow> tokens[i := r]))"
  using assms by (simp add: tokenize_eq join_split_loop split_loop_tokens_free masked_def)

theorem tokenize_tokens_and_variants_witness:
  "interpretation_separator default_config \<noteq> []
   \<and> (\<exists>tokens variants. tokenize default_config ''a b c'' = Inr (tokens, variants)
        \<and> join (interpretation_separator default_config) tokens = ''a b c''
        \<and> length variants = length tokens)"
proof -
  have a: "interpretation_separator default_config \<noteq> []"
    by (simp add: default_config_def)
  from tokenize_tokens_and_variants [OF a, of "''a b c''"]
  have b: "\<exists>tokens variants. tokenize default_config ''a b c'' = Inr (tokens, variants)
        \<and> join (interpretation_separator default_config) tokens = ''a b c''
        \<and> length variants = length tokens"
    by blast
  show ?thesis
    by (intro conjI) (rule a, rule b)
qed

text \<open>
  The claim as first stated, for every separator, fails at the empty separator:
  \<open>x.split('')\<close> raises \<open>ValueError\<close>, and so does \<open>tokenize\<close>.
\<close>

theorem tokenize_tokens_and_variants_counterexample:
  "tokenize (default_config\<lparr>interpretation_separator := ''''\<rparr>) ''a b c''
     = Inl (ValueError ''empty separator'' None)"
  by (simp add: tokenize_def str_split_def)

lemma tokenize_remove_example:
  "tokenize default_config ''a b c''
     = Inr ([''a'', ''b'', ''c''], [''b c'', ''a c'', ''a b''])"
  by code_simp

lemma tokenize_replace_example:
  "tokenize (default_config\<lparr>interpretation_replacement := Some ''X''\<rparr>) ''a b c''
     = Inr ([''a'', ''b'', ''c''], [''X b c'', ''a X c'', ''a b X''])"
  by code_simp

text \<open>
  C7. \<open>get_interpretation_scores\<close> pairs tokens and scores up to the length of
  the shorter list. The pair \<open>k\<close> gives the tuple \<open>(token, score)\<close> at position
  \<open>2k\<close> and the tuple \<open>(separator, 0)\<close> at position \<open>2k + 1\<close>, also behind the
  last token, so that the result has exactly \<open>2 * min(|tokens|, |scores|)\<close> tuples.
\<close>

theorem scores_interleaved:
  "length (get_interpretation_scores self scores tokens)
     = 2 * min (length tokens) (length scores)
   \<and> (\<forall>k < min (length tokens) (length scores).
        get_interpretation_scores self scores tokens ! (2 * k) = (tokens ! k, scores ! k)
      \<and> get_interpretation_scores self scores tokens ! (2 * k + 1)
          = (interpretation_separator self, 0))"
proof -
  let ?f = "\<lambda>p :: string \<times> 'a. (fst p, snd p)"
  let ?g = "\<lambda>p :: string \<times> 'a. (interpretation_separator self, 0 :: 'a)"
  have eq: "get_interpretation_scores self scores tokens
      = concat (map (\<lambda>p. [?f p, ?g p]) (zip tokens scores))"
    by (simp add: get_interpretation_scores_def scores_loop_eq case_prod_unfold)
  show ?thesis
    unfolding eq
    using concat_pairs_even [of _ "zip tokens scores" ?f ?g]
      concat_pairs_odd [of _ "zip tokens scores" ?f ?g]
    by (simp add: concat_pairs_length)
qed

text \<open>The theorem at three tokens and two scores, for the last pair.\<close>

theorem scores_interleaved_witness:
  "(1 :: nat) < min (length [''a'', ''b'', ''c'']) (length [1 / 10, 1 / 5 :: rat])
   \<and> length (get_interpretation_scores default_config [1 / 10, 1 / 5 :: rat]
        [''a'', ''b'', ''c'']) = 4
   \<and> get_interpretation_scores default_config [1 / 10, 1 / 5 :: rat] [''a'', ''b'', ''c'']
        ! (2 * 1 + 1) = ('' '', 0)"
proof -
  have a: "(1 :: nat) < min (length [''a'', ''b'', ''c'']) (length [1 / 10, 1 / 5 :: rat])"
    by simp
  note t = scores_interleaved [of default_config "[1 / 10, 1 / 5 :: rat]" "[''a'', ''b'', ''c'']"]
  from t have b: "length (get_interpretation_scores default_config [1 / 10, 1 / 5 :: rat]
        [''a'', ''b'', ''c'']) = 4"
    by simp
  from t [THEN conjunct2, rule_format, OF a, THEN conjunct2]
  have c: "get_interpretation_scores default_config [1 / 10, 1 / 5 :: rat] [''a'', ''b'', ''c'']
        ! (2 * 1 + 1) = ('' '', 0)"
    by (simp add: default_config_def)
  show ?thesis
    by (intro conjI) (rule a, rule b, rule c)
qed

lemma scores_example:
  "get_interpretation_scores default_config [1 / 10, 1 / 5 :: rat] [''a'', ''b'']
     = [(''a'', 1 / 10), ('' '', 0), (''b'', 1 / 5), ('' '', 0)]"
  by (simp add: get_interpretation_scores_def default_config_def)

end
